theory Spec2Isabelle
  imports Main "HOL-Library.AList" "HOL-Library.Product_Lexorder" "HOL-Library.List_Lexorder"
begin

section \<open>Text schedule of pretalx: \<^verbatim>\<open>src/pretalx/agenda/views/schedule.py\<close>\<close>

subsection \<open>Python strings and the operations the view uses on them\<close>

text \<open>
  A Python \<^verbatim>\<open>str\<close> is a sequence of Unicode code points and \<^verbatim>\<open>len\<close> counts them.
  The view emits characters beyond Latin-1 (the ellipsis, box-drawing glyphs), so a
  string is a list of code points; \<open>str\<close> embeds an ASCII literal.
\<close>

type_synonym ustr = "nat list"

definition str :: "string \<Rightarrow> ustr" where
  "str s = map of_char s"

definition SPACE :: nat where "SPACE = 32"
definition NEWLINE :: nat where "NEWLINE = 10"
definition ESC :: nat where "ESC = 27"

text \<open>The ellipsis \<^verbatim>\<open>U+2026\<close> and the two junctions \<^verbatim>\<open>U+251C\<close>, \<^verbatim>\<open>U+2524\<close>
  that the source writes as literals.\<close>

definition ELLIPSIS :: nat where "ELLIPSIS = 8230"
definition LEFT_T :: nat where "LEFT_T = 9500"
definition RIGHT_T :: nat where "RIGHT_T = 9508"

datatype error = ValueError | KeyError | IndexError | StopIteration | AttributeError

text \<open>\<^verbatim>\<open>s[:n]\<close>: a negative bound counts from the end.\<close>

definition slice_to :: "'a list \<Rightarrow> int \<Rightarrow> 'a list" where
  "slice_to xs n = (if 0 \<le> n then take (nat n) xs else take (length xs - nat (- n)) xs)"

text \<open>\<^verbatim>\<open>s[n:]\<close>.\<close>

definition slice_from :: "'a list \<Rightarrow> int \<Rightarrow> 'a list" where
  "slice_from xs n = (if 0 \<le> n then drop (nat n) xs else drop (length xs - nat (- n)) xs)"

text \<open>\<^verbatim>\<open>sep.join(parts)\<close>.\<close>

fun join :: "ustr \<Rightarrow> ustr list \<Rightarrow> ustr" where
  "join sep [] = []"
| "join sep [x] = x"
| "join sep (x # y # ys) = x @ sep @ join sep (y # ys)"

text \<open>\<^verbatim>\<open>s * n\<close>: a negative count gives the empty string.\<close>

definition str_times :: "ustr \<Rightarrow> int \<Rightarrow> ustr" where
  "str_times s n = concat (replicate (nat n) s)"

text \<open>
  \<^verbatim>\<open>f"{s:<{w}}"\<close> on a string: pads with spaces on the right up to \<open>w\<close> characters and
  never shortens. A negative \<open>w\<close> makes the format specification \<^verbatim>\<open><-1\<close>, which
  \<^verbatim>\<open>str.__format__\<close> rejects with \<^verbatim>\<open>ValueError\<close>.
\<close>

definition ljust :: "ustr \<Rightarrow> int \<Rightarrow> error + ustr" where
  "ljust s w = (if w < 0 then Inl ValueError
                else Inr (s @ replicate (nat w - length s) SPACE))"

text \<open>The escape sequence \<^verbatim>\<open>\033[<code>m\<close>.\<close>

definition sgr :: "string \<Rightarrow> ustr" where
  "sgr code = ESC # str (''['' @ code @ ''m'')"

subsection \<open>\<^verbatim>\<open>textwrap.wrap\<close> as a parameter\<close>

text \<open>
  \<^verbatim>\<open>textwrap.wrap\<close> belongs to the Python standard library. The functions of the view
  take it as the parameter \<open>wrap\<close> (the text, then the positive width); the one thing
  they write out is its \<^verbatim>\<open>ValueError\<close> for a width below 1. The library's algorithm
  is given at the end of the definitions, as \<open>wrap_words\<close>.
\<close>

subsection \<open>The schedule data handed to the view\<close>

text \<open>
  A talk slot with the attributes the view reads. Instants are whole minutes counted
  from a midnight, all in one time zone; \<open>duration\<close> is in minutes; \<open>room_name\<close> is
  \<^verbatim>\<open>talk.room.name\<close>. A break is a slot without a submission.
\<close>

record submission =
  title :: ustr
  display_speaker_names :: ustr
  content_locale :: ustr

record talk =
  pk :: nat
  start :: nat
  talk_end :: nat
  real_end :: nat
  duration :: int
  submission :: "submission option"
  description :: ustr
  room_name :: ustr

subsection \<open>\<^verbatim>\<open>_card\<close>\<close>

text \<open>Line 317.\<close>

definition max_title_lines :: "int \<Rightarrow> int" where
  "max_title_lines height = (if height \<le> 5 then 1 else height - 4)"

text \<open>Lines 318 to 324: the wrapped title cut down to \<open>max_title_lines\<close> lines. That number
  is at least 1, so the kept lines have a last one for \<^verbatim>\<open>titlelines[-1]\<close>.\<close>

definition cut_titlelines :: "ustr list \<Rightarrow> int \<Rightarrow> int \<Rightarrow> ustr list" where
  "cut_titlelines titlelines height text_width =
     (if int (length titlelines) > max_title_lines height
      then (let kept = slice_to titlelines (max_title_lines height);
                remainder = slice_from titlelines (max_title_lines height);
                last_line = last kept @ [SPACE] @ join [SPACE] remainder
            in kept[length kept - 1 := slice_to last_line (text_width - 1) @ [ELLIPSIS]])
      else titlelines)"

text \<open>Lines 330 to 334: the speakers' names cut down to \<open>cutoff\<close> characters.\<close>

definition truncate_to :: "ustr \<Rightarrow> int \<Rightarrow> ustr" where
  "truncate_to s cutoff =
     (if int (length s) > cutoff then slice_to s (cutoff - 1) @ [ELLIPSIS] else s)"

text \<open>The formatted lines; each is an f-string of the source.\<close>

definition title_line :: "int \<Rightarrow> ustr \<Rightarrow> error + ustr" where
  "title_line text_width line =
     (case ljust line text_width of
        Inl e \<Rightarrow> Inl e
      | Inr padded \<Rightarrow> Inr (str ''  '' @ sgr ''1'' @ padded @ sgr ''0'' @ str ''  ''))"

definition joined_line :: "int \<Rightarrow> ustr \<Rightarrow> ustr \<Rightarrow> error + ustr" where
  "joined_line text_width speaker_str locale =
     (case ljust speaker_str (text_width - 4) of
        Inl e \<Rightarrow> Inl e
      | Inr speaker \<Rightarrow>
          (case ljust locale 2 of
             Inl e \<Rightarrow> Inl e
           | Inr loc \<Rightarrow>
               Inr (str ''  '' @ sgr ''33'' @ speaker @ sgr ''0''
                    @ str ''  '' @ sgr ''38;5;246'' @ loc @ sgr ''0'' @ str ''  '')))"

definition speaker_line :: "int \<Rightarrow> ustr \<Rightarrow> error + ustr" where
  "speaker_line text_width speaker_str =
     (case ljust speaker_str text_width of
        Inl e \<Rightarrow> Inl e
      | Inr speaker \<Rightarrow> Inr (str ''  '' @ sgr ''33'' @ speaker @ sgr ''0'' @ str ''  ''))"

definition locale_line :: "int \<Rightarrow> ustr \<Rightarrow> ustr" where
  "locale_line text_width locale =
     str_times [SPACE] (text_width - 2) @ str ''  '' @ sgr ''38;5;246'' @ locale @ sgr ''0'' @ str ''  ''"

text \<open>
  A generator that has been run to its end: the lines it yields, in order, and the
  exception that ends it, if one does. The lines before an exception are yielded all
  the same.
\<close>

type_synonym gen = "ustr list \<times> error option"

text \<open>Yield the lines of \<open>items\<close> up to the first that raises, then go on with \<open>k\<close>.\<close>

fun yield_all :: "(error + ustr) list \<Rightarrow> gen \<Rightarrow> gen" where
  "yield_all [] k = k"
| "yield_all (Inl e # items) k = ([], Some e)"
| "yield_all (Inr l # items) k = (l # fst (yield_all items k), snd (yield_all items k))"

definition title_text :: "talk \<Rightarrow> ustr" where
  "title_text t = (case submission t of Some s \<Rightarrow> title s | None \<Rightarrow> description t)"

definition card_height :: "talk \<Rightarrow> int" where
  "card_height t = duration t div 5 - 1"

text \<open>Lines 326 to 334 and 345 to 366: the lines for the speakers and the locale.\<close>

definition speaker_items :: "talk \<Rightarrow> int \<Rightarrow> int \<Rightarrow> ustr \<Rightarrow> (error + ustr) list" where
  "speaker_items t text_width height_after_title empty_line =
     (let join_speaker_and_locale = (height_after_title \<le> 3 \<and> submission t \<noteq> None);
          cutoff = (if join_speaker_and_locale then text_width - 4 else text_width);
          speaker_str = truncate_to (case submission t of
                                    Some s \<Rightarrow> display_speaker_names s
                                  | None \<Rightarrow> []) cutoff
      in if speaker_str \<noteq> []
         then (if join_speaker_and_locale
               then [case submission t of
                       Some s \<Rightarrow> joined_line text_width speaker_str (content_locale s)
                     | None \<Rightarrow> Inl AttributeError]
               else [speaker_line text_width speaker_str]
                    @ (if height_after_title > 4 then [Inr empty_line] else [])
                    @ [case submission t of
                         Some s \<Rightarrow> Inr (locale_line text_width (content_locale s))
                       | None \<Rightarrow> Inl AttributeError])
         else (case submission t of
                 Some s \<Rightarrow> [Inr (locale_line text_width (content_locale s))]
               | None \<Rightarrow> []))"

text \<open>Lines 309 to 324: the title lines of a card.\<close>

definition card_titlelines :: "(ustr \<Rightarrow> nat \<Rightarrow> ustr list) \<Rightarrow> talk \<Rightarrow> int \<Rightarrow> ustr list" where
  "card_titlelines wrap t col_width =
     (let text_width = col_width - 4
      in cut_titlelines (wrap (title_text t) (nat text_width)) (card_height t) text_width)"

text \<open>The lines that carry content, in the order of the \<^verbatim>\<open>yield\<close> statements.\<close>

definition card_items :: "(ustr \<Rightarrow> nat \<Rightarrow> ustr list) \<Rightarrow> talk \<Rightarrow> int \<Rightarrow> (error + ustr) list" where
  "card_items wrap t col_width =
     (let empty_line = str_times [SPACE] col_width;
          text_width = col_width - 4;
          height = card_height t;
          titlelines = card_titlelines wrap t col_width;
          height_after_title = height - int (length titlelines)
      in (if height > 4 then [Inr empty_line] else [])
         @ map (title_line text_width) titlelines
         @ (if height_after_title > 2 then [Inr empty_line] else [])
         @ speaker_items t text_width height_after_title empty_line)"

text \<open>
  The generator \<^verbatim>\<open>_card(talk, col_width)\<close>. \<^verbatim>\<open>textwrap.wrap\<close> raises for a width below
  1 before anything is yielded. After the content lines, \<^verbatim>\<open>repeat\<close> adds
  \<^verbatim>\<open>height - yielded_lines + 1\<close> empty lines, none when that number is negative.
\<close>

definition card_gen :: "(ustr \<Rightarrow> nat \<Rightarrow> ustr list) \<Rightarrow> talk \<Rightarrow> int \<Rightarrow> gen" where
  "card_gen wrap t col_width =
     (if col_width - 4 \<le> 0 then ([], Some ValueError)
      else (let items = card_items wrap t col_width;
                yielded_lines = int (length items)
            in yield_all items
                 (replicate (nat (card_height t - yielded_lines + 1)) (str_times [SPACE] col_width),
                  None)))"

subsection \<open>The rooms and days of a schedule\<close>

text \<open>
  A room of a day is a dictionary with the keys \<^verbatim>\<open>name\<close> and \<^verbatim>\<open>talks\<close>; the view reads
  \<^verbatim>\<open>talks\<close> both with \<^verbatim>\<open>room.get("talks", [])\<close> and with \<^verbatim>\<open>r["talks"]\<close>, so the key may
  be absent (\<open>None\<close>). A day is a dictionary with \<^verbatim>\<open>start\<close>, \<^verbatim>\<open>rooms\<close> and the optional
  \<^verbatim>\<open>first_start\<close> and \<^verbatim>\<open>last_end\<close>.
\<close>

record pydate =
  year :: nat
  month :: nat
  day :: nat

record room =
  name :: ustr
  talks :: "talk list option"

record date_bucket =
  date_start :: pydate
  rooms :: "room list"
  first_start :: "nat option"
  last_end :: "nat option"

subsection \<open>Formatting dates and times\<close>

fun decimal :: "nat \<Rightarrow> ustr" where
  "decimal n = (if n < 10 then [48 + n] else decimal (n div 10) @ [48 + n mod 10])"

declare decimal.simps [simp del]

definition zero_pad :: "nat \<Rightarrow> nat \<Rightarrow> ustr" where
  "zero_pad width n = replicate (width - length (decimal n)) 48 @ decimal n"

text \<open>\<^verbatim>\<open>{:%Y-%m-%d}\<close> and \<^verbatim>\<open>{:%H:%M}\<close>. The year is written with four digits, as \<^verbatim>\<open>strftime\<close>
  does from the year 1000 on; below that the C library decides, and Linux writes the
  year 999 with three digits.\<close>

definition strftime_Ymd :: "pydate \<Rightarrow> ustr" where
  "strftime_Ymd d = zero_pad 4 (year d) @ str ''-'' @ zero_pad 2 (month d)
                    @ str ''-'' @ zero_pad 2 (day d)"

definition strftime_HM :: "nat \<Rightarrow> ustr" where
  "strftime_HM t = zero_pad 2 (t div 60 mod 24) @ str '':'' @ zero_pad 2 (t mod 60)"

definition date_header :: "date_bucket \<Rightarrow> ustr" where
  "date_header d = [NEWLINE] @ sgr ''33'' @ strftime_Ymd (date_start d) @ sgr ''0'' @ [NEWLINE]"

text \<open>\<^verbatim>\<open>(talk for room in date["rooms"] for talk in room.get("talks", []))\<close>.\<close>

definition all_talks :: "date_bucket \<Rightarrow> talk list" where
  "all_talks d = concat (map (\<lambda>r. case talks r of Some ts \<Rightarrow> ts | None \<Rightarrow> []) (rooms d))"

subsection \<open>\<^verbatim>\<open>_get_text_list\<close>\<close>

text \<open>One element of the \<^verbatim>\<open>"".join(...)\<close> of lines 160 to 173. \<^verbatim>\<open>sorted\<close> is stable, as
  \<open>sort_key\<close> is.\<close>

definition list_entry :: "talk \<Rightarrow> ustr" where
  "list_entry t =
     str ''* '' @ sgr ''33'' @ strftime_HM (start t) @ sgr ''0'' @ str '' ''
     @ (case submission t of
          Some s \<Rightarrow>
            title s @ str '', ''
            @ (if display_speaker_names s \<noteq> [] then display_speaker_names s
               else str ''No speakers'')
            @ str '' ('' @ content_locale s @ str ''); in '' @ room_name t @ [NEWLINE]
        | None \<Rightarrow> description t @ str '' in '' @ room_name t)"

fun get_text_list :: "date_bucket list \<Rightarrow> ustr" where
  "get_text_list [] = []"
| "get_text_list (d # ds) =
     (let talk_list = sort_key start (all_talks d)
      in (if talk_list \<noteq> []
          then date_header d @ concat (map list_entry talk_list)
          else [])
         @ get_text_list ds)"

subsection \<open>\<^verbatim>\<open>get_schedule_data_list\<close>\<close>

text \<open>The day after \<^verbatim>\<open>date.pop("rooms")\<close> and \<^verbatim>\<open>date["talks"] = talks\<close>.\<close>

record date_talks =
  dt_start :: pydate
  dt_first_start :: "nat option"
  dt_last_end :: "nat option"
  dt_talks :: "talk list"

definition list_sort_key :: "talk \<Rightarrow> nat \<times> ustr" where
  "list_sort_key x = (start x, case submission x of Some s \<Rightarrow> title s | None \<Rightarrow> [])"

definition get_schedule_data_list :: "date_bucket list \<Rightarrow> date_talks list" where
  "get_schedule_data_list data =
     map (\<lambda>d. \<lparr>dt_start = date_start d, dt_first_start = first_start d,
                dt_last_end = last_end d,
                dt_talks = sort_key list_sort_key (all_talks d)\<rparr>) data"

subsection \<open>\<^verbatim>\<open>_get_line_parts\<close> and \<^verbatim>\<open>_get_dt_line\<close>\<close>

text \<open>
  \<^verbatim>\<open>pretalx.common.console\<close> is not among the sources: its \<^verbatim>\<open>get_separator\<close>, \<^verbatim>\<open>LR\<close> and
  \<^verbatim>\<open>UD\<close> are parameters.
\<close>

record console =
  get_separator :: "bool \<Rightarrow> bool \<Rightarrow> bool \<Rightarrow> bool \<Rightarrow> ustr"
  LR :: ustr
  UD :: ustr

text \<open>A slot or \<^verbatim>\<open>None\<close> is true when it is a slot.\<close>

definition truthy :: "'a option \<Rightarrow> bool" where
  "truthy x \<longleftrightarrow> x \<noteq> None"

definition get_line_parts ::
  "console \<Rightarrow> talk option \<Rightarrow> talk option \<Rightarrow> talk option \<Rightarrow> talk option
     \<Rightarrow> talk option \<Rightarrow> talk option \<Rightarrow> ustr \<Rightarrow> ustr list" where
  "get_line_parts con start1 start2 end1 end2 run1 run2 fill_char =
     (let start_end = [end2, start2, start1, end1]
      in if truthy run1 \<and> (truthy start2 \<or> truthy end2) then [[LEFT_T]]
         else if truthy run2 \<and> (truthy start1 \<or> truthy end1) then [[RIGHT_T]]
         else if list_ex truthy start_end
           then [get_separator con (truthy end2) (truthy start2) (truthy start1) (truthy end1)]
         else if truthy run1 \<or> truthy run2 then [UD con]
         else [fill_char])"

text \<open>\<^verbatim>\<open>next(cards_by_id[key])\<close>: the next line of a card and the dictionary with that
  generator advanced.\<close>

definition next_card :: "(nat \<rightharpoonup> gen) \<Rightarrow> nat \<Rightarrow> error + (ustr \<times> (nat \<rightharpoonup> gen))" where
  "next_card cards k =
     (case cards k of
        None \<Rightarrow> Inl KeyError
      | Some (l # ls, e) \<Rightarrow> Inr (l, cards(k \<mapsto> (ls, e)))
      | Some ([], Some e) \<Rightarrow> Inl e
      | Some ([], None) \<Rightarrow> Inl StopIteration)"

text \<open>The three dictionaries of one instant, read at a room.\<close>

type_synonym events = "ustr \<Rightarrow> talk option"

text \<open>The loop over \<^verbatim>\<open>zip(rooms[:-1], rooms[1:])\<close>, lines 270 to 289.\<close>

fun between_rooms ::
  "console \<Rightarrow> events \<Rightarrow> events \<Rightarrow> events \<Rightarrow> int \<Rightarrow> ustr \<Rightarrow> (ustr \<times> ustr) list
     \<Rightarrow> (nat \<rightharpoonup> gen) \<Rightarrow> error + (ustr list \<times> (nat \<rightharpoonup> gen))" where
  "between_rooms con starting running ending col_width fill_char [] cards = Inr ([], cards)"
| "between_rooms con starting running ending col_width fill_char ((loc1, loc2) # pairs) cards =
     (let parts = get_line_parts con (starting loc1) (starting loc2) (ending loc1) (ending loc2)
                    (running loc1) (running loc2) fill_char
      in case (case running loc2 of
                 Some run2 \<Rightarrow>
                   (case next_card cards (pk run2) of
                      Inl e \<Rightarrow> Inl e
                    | Inr (l, cards') \<Rightarrow> Inr (l, cards'))
               | None \<Rightarrow>
                   if truthy (starting loc2) \<or> truthy (ending loc2)
                   then Inr (str_times (LR con) col_width, cards)
                   else Inr (str_times fill_char col_width, cards)) of
           Inl e \<Rightarrow> Inl e
         | Inr (cell, cards') \<Rightarrow>
             (case between_rooms con starting running ending col_width fill_char pairs cards' of
                Inl e \<Rightarrow> Inl e
              | Inr (cells, cards'') \<Rightarrow> Inr (parts @ [cell] @ cells, cards'')))"

definition get_dt_line ::
  "console \<Rightarrow> nat \<Rightarrow> bool \<Rightarrow> events \<Rightarrow> events \<Rightarrow> events \<Rightarrow> ustr list \<Rightarrow> int
     \<Rightarrow> (nat \<rightharpoonup> gen) \<Rightarrow> error + (ustr \<times> (nat \<rightharpoonup> gen))" where
  "get_dt_line con dt is_tick starting running ending rms col_width cards =
     (let label = (if is_tick then strftime_HM dt @ str '' --'' else str_times [SPACE] 8);
          fill_char = (if is_tick then str ''-'' else [SPACE])
      in case rms of
           [] \<Rightarrow> Inl IndexError
         | room0 # _ \<Rightarrow>
             (case (if truthy (starting room0) \<or> truthy (ending room0)
                    then Inr (get_separator con (truthy (ending room0)) (truthy (starting room0))
                                False False @ str_times (LR con) col_width, cards)
                    else case running room0 of
                           Some run \<Rightarrow>
                             (case next_card cards (pk run) of
                                Inl e \<Rightarrow> Inl e
                              | Inr (l, cards') \<Rightarrow> Inr (UD con @ l, cards'))
                         | None \<Rightarrow> Inr (str_times fill_char (col_width + 1), cards)) of
                Inl e \<Rightarrow> Inl e
              | Inr (first_cell, cards1) \<Rightarrow>
                  (case between_rooms con starting running ending col_width fill_char
                          (zip (butlast rms) (tl rms)) cards1 of
                     Inl e \<Rightarrow> Inl e
                   | Inr (middle, cards2) \<Rightarrow>
                       (let room1 = last rms;
                            right_edge =
                              (if truthy (starting room1) \<or> truthy (ending room1)
                               then get_separator con False False (truthy (starting room1))
                                      (truthy (ending room1))
                               else if truthy (running room1) then UD con
                               else fill_char)
                        in Inr (concat ([label, first_cell] @ middle @ [right_edge]), cards2)))))"

subsection \<open>\<^verbatim>\<open>_get_table_for_date\<close> and \<^verbatim>\<open>_get_text_table\<close>\<close>

text \<open>\<^verbatim>\<open>{str(r["name"]): r["talks"] for r in date["rooms"]}\<close>: a later room of the same name
  replaces the talks and keeps the place of the first; a room without the key \<^verbatim>\<open>talks\<close>
  raises.\<close>

fun talks_by_room_from :: "(ustr \<times> talk list) list \<Rightarrow> room list \<Rightarrow> error + (ustr \<times> talk list) list" where
  "talks_by_room_from acc [] = Inr acc"
| "talks_by_room_from acc (r # rs) =
     (case talks r of
        None \<Rightarrow> Inl KeyError
      | Some ts \<Rightarrow> talks_by_room_from (AList.update (name r) ts acc) rs)"

text \<open>\<^verbatim>\<open>{talk.pk: self._card(talk, col_width) for talk in talk_list}\<close>.\<close>

definition cards_for :: "(ustr \<Rightarrow> nat \<Rightarrow> ustr list) \<Rightarrow> talk list \<Rightarrow> int \<Rightarrow> (nat \<rightharpoonup> gen)" where
  "cards_for wrap talk_list col_width =
     fold (\<lambda>t m. m(pk t \<mapsto> card_gen wrap t col_width)) talk_list Map.empty"

text \<open>The cells of the header, \<^verbatim>\<open>f"{room:<{col_width-2}}"\<close> for each room.\<close>

fun header_cells :: "ustr list \<Rightarrow> int \<Rightarrow> error + ustr list" where
  "header_cells [] col_width = Inr []"
| "header_cells (rm # rms) col_width =
     (case ljust rm (col_width - 2) of
        Inl e \<Rightarrow> Inl e
      | Inr cell \<Rightarrow>
          (case header_cells rms col_width of
             Inl e \<Rightarrow> Inl e
           | Inr cells \<Rightarrow> Inr (cell # cells)))"

definition header_row :: "ustr list \<Rightarrow> int \<Rightarrow> error + ustr" where
  "header_row rms col_width =
     (case header_cells rms col_width of
        Inl e \<Rightarrow> Inl e
      | Inr cells \<Rightarrow> Inr (str ''        | '' @ join (str '' | '') cells))"

text \<open>
  \<^verbatim>\<open>dateutil.rrule\<close> is a library. On instants of whole minutes,
  \<^verbatim>\<open>rrule(HOURLY, byminute=range(0, 60, 5), dtstart=a, until=b)\<close> gives the instants from
  \<open>a\<close> to \<open>b\<close> whose minute is a multiple of 5, in order, and \<^verbatim>\<open>byminute=(0, 30)\<close> those
  on the hour and the half hour.
\<close>

definition rrule_minutes :: "nat \<Rightarrow> nat \<Rightarrow> nat \<Rightarrow> nat list" where
  "rrule_minutes step dtstart until = filter (\<lambda>t. t mod step = 0) [dtstart ..< until + 1]"

definition starting_events :: "(ustr \<times> talk list) list \<Rightarrow> nat \<Rightarrow> events" where
  "starting_events tbr hour rm =
     (case map_of tbr rm of None \<Rightarrow> None | Some ts \<Rightarrow> find (\<lambda>e. start e = hour) ts)"

definition running_events :: "(ustr \<times> talk list) list \<Rightarrow> nat \<Rightarrow> events" where
  "running_events tbr hour rm =
     (case map_of tbr rm of
        None \<Rightarrow> None
      | Some ts \<Rightarrow> find (\<lambda>e. start e < hour \<and> hour < real_end e) ts)"

definition ending_events :: "(ustr \<times> talk list) list \<Rightarrow> nat \<Rightarrow> events" where
  "ending_events tbr hour rm =
     (case map_of tbr rm of None \<Rightarrow> None | Some ts \<Rightarrow> find (\<lambda>e. real_end e = hour) ts)"

text \<open>The loop of lines 205 to 237; the cards are advanced from row to row.\<close>

fun table_rows ::
  "console \<Rightarrow> (ustr \<times> talk list) list \<Rightarrow> nat list \<Rightarrow> ustr list \<Rightarrow> int \<Rightarrow> nat list
     \<Rightarrow> (nat \<rightharpoonup> gen) \<Rightarrow> error + ustr list" where
  "table_rows con tbr tick_times rms col_width [] cards = Inr []"
| "table_rows con tbr tick_times rms col_width (hour # hours) cards =
     (case get_dt_line con hour (hour \<in> set tick_times) (starting_events tbr hour)
             (running_events tbr hour) (ending_events tbr hour) rms col_width cards of
        Inl e \<Rightarrow> Inl e
      | Inr (line, cards') \<Rightarrow>
          (case table_rows con tbr tick_times rms col_width hours cards' of
             Inl e \<Rightarrow> Inl e
           | Inr lines \<Rightarrow> Inr (line # lines)))"

definition get_table_for_date ::
  "(ustr \<Rightarrow> nat \<Rightarrow> ustr list) \<Rightarrow> console \<Rightarrow> date_bucket \<Rightarrow> int \<Rightarrow> error + ustr option" where
  "get_table_for_date wrap con d col_width =
     (let talk_list = sort_key start (all_talks d)
      in if talk_list = [] then Inr None
         else
           (let global_start = (case first_start d of
                                  Some t \<Rightarrow> t
                                | None \<Rightarrow> Min (set (map start talk_list)));
                global_end = (case last_end d of
                                Some t \<Rightarrow> t
                              | None \<Rightarrow> Max (set (map talk_end talk_list)))
            in case talks_by_room_from [] (rooms d) of
                 Inl e \<Rightarrow> Inl e
               | Inr tbr \<Rightarrow>
                   (let cards_by_id = cards_for wrap talk_list col_width;
                        rms = map fst tbr
                    in case header_row rms col_width of
                         Inl e \<Rightarrow> Inl e
                       | Inr header \<Rightarrow>
                           (case table_rows con tbr (rrule_minutes 30 global_start global_end)
                                   rms col_width (rrule_minutes 5 global_start global_end)
                                   cards_by_id of
                              Inl e \<Rightarrow> Inl e
                            | Inr lines \<Rightarrow> Inr (Some (join [NEWLINE] (header # lines)))))))"

definition no_talks :: ustr where
  "no_talks = str ''No talks on this day.'' @ [NEWLINE]"

fun get_text_table ::
  "(ustr \<Rightarrow> nat \<Rightarrow> ustr list) \<Rightarrow> console \<Rightarrow> date_bucket list \<Rightarrow> int \<Rightarrow> error + ustr" where
  "get_text_table wrap con [] col_width = Inr []"
| "get_text_table wrap con (d # ds) col_width =
     (case get_table_for_date wrap con d col_width of
        Inl e \<Rightarrow> Inl e
      | Inr table \<Rightarrow>
          (case get_text_table wrap con ds col_width of
             Inl e \<Rightarrow> Inl e
           | Inr rest \<Rightarrow>
               Inr (date_header d
                    @ (case table of
                         Some text \<Rightarrow> if text \<noteq> [] then text else no_talks
                       | None \<Rightarrow> no_talks)
                    @ rest)))"

subsection \<open>\<^verbatim>\<open>get_text\<close>\<close>

text \<open>
  The request carries the query parameters. \<^verbatim>\<open>ScheduleData(...).data\<close> and the text
  built from the event's name and addresses (\<open>response_start\<close>) come from outside this
  file and are parameters.
\<close>

record request =
  GET :: "ustr \<rightharpoonup> ustr"

record http_response =
  content :: ustr
  content_type :: ustr

definition output_format :: "request \<Rightarrow> ustr" where
  "output_format req =
     (let fmt = (case GET req (str ''format'') of Some v \<Rightarrow> v | None \<Rightarrow> str ''table'')
      in if fmt \<notin> set [str ''list'', str ''table''] then str ''table'' else fmt)"

definition get_text ::
  "(ustr \<Rightarrow> nat \<Rightarrow> ustr list) \<Rightarrow> console \<Rightarrow> ustr \<Rightarrow> date_bucket list \<Rightarrow> request
     \<Rightarrow> error + http_response" where
  "get_text wrap con response_start data req =
     (case (if output_format req = str ''list'' then Inr (get_text_list data)
            else get_text_table wrap con data 20) of
        Inl e \<Rightarrow> Inl e
      | Inr result \<Rightarrow>
          Inr \<lparr>content = response_start @ result,
               content_type = str ''text/plain; charset=utf-8''\<rparr>)"

subsection \<open>What the specification says, in its own words\<close>

text \<open>
  The specification's rule for the title (section 4.1, step 4), written from its words:
  with \<open>max_title_lines\<close> 1 for a height of at most 5 and the height minus 4 otherwise,
  a wrapped title of more lines keeps the first \<open>max_title_lines\<close>, adds the remaining
  words to the last kept line, cuts that line to \<open>text_width - 1\<close> characters and
  appends the ellipsis.
\<close>

definition spec_title_lines :: "ustr list \<Rightarrow> int \<Rightarrow> int \<Rightarrow> ustr list" where
  "spec_title_lines wrapped height text_width =
     (let m = nat (if height \<le> 5 then 1 else height - 4)
      in if length wrapped > m
         then take (m - 1) wrapped
              @ [take (nat (text_width - 1))
                   (wrapped ! (m - 1) @ [SPACE] @ join [SPACE] (drop m wrapped))
                 @ [ELLIPSIS]]
         else wrapped)"

text \<open>
  The width of a line on a terminal: the line without its colour sequences, each of
  which runs from the escape character to the next \<^verbatim>\<open>m\<close>.
\<close>

fun strip_sgr :: "bool \<Rightarrow> ustr \<Rightarrow> ustr" where
  "strip_sgr in_sequence [] = []"
| "strip_sgr True (c # cs) = (if c = 109 then strip_sgr False cs else strip_sgr True cs)"
| "strip_sgr False (c # cs) = (if c = ESC then strip_sgr True cs else c # strip_sgr False cs)"

definition visible :: "ustr \<Rightarrow> ustr" where
  "visible s = strip_sgr False s"

subsection \<open>A schedule to evaluate the view on\<close>

text \<open>A console of plain characters, two halls, a talk at 09:00 and a coffee break at
  10:00, on 7 March 2026.\<close>

definition ascii_console :: console where
  "ascii_console = \<lparr>get_separator = (\<lambda>a b c d. str ''+''), LR = str ''-'', UD = str ''|''\<rparr>"

definition example_sub :: "string \<Rightarrow> submission" where
  "example_sub t = \<lparr>title = str t, display_speaker_names = str ''Ada Lovelace'',
                    content_locale = str ''en''\<rparr>"

definition example_talk :: "nat \<Rightarrow> string \<Rightarrow> string \<Rightarrow> int \<Rightarrow> talk" where
  "example_talk k t rm d =
     \<lparr>pk = k, start = 540, talk_end = 540 + nat d, real_end = 540 + nat d, duration = d,
      submission = Some (example_sub t), description = [], room_name = str rm\<rparr>"

definition example_break :: talk where
  "example_break =
     \<lparr>pk = 9, start = 600, talk_end = 615, real_end = 615, duration = 15,
      submission = None, description = str ''Coffee'', room_name = str ''Foyer''\<rparr>"

definition example_day :: "room list \<Rightarrow> date_bucket" where
  "example_day rms = \<lparr>date_start = \<lparr>year = 2026, month = 3, day = 7\<rparr>, rooms = rms,
                       first_start = None, last_end = None\<rparr>"

definition tie_day :: date_bucket where
  "tie_day = example_day
     [\<lparr>name = str ''Hall A'', talks = Some [example_talk 1 ''Zebra'' ''Hall A'' 30]\<rparr>,
      \<lparr>name = str ''Hall B'', talks = Some [example_talk 2 ''Alpha'' ''Hall B'' 30]\<rparr>]"

definition coffee_day :: date_bucket where
  "coffee_day = example_day
     [\<lparr>name = str ''Foyer'', talks = Some [example_break]\<rparr>,
      \<lparr>name = str ''Hall A'', talks = Some [example_talk 1 ''Zebra'' ''Hall A'' 30 \<lparr>start := 615\<rparr>]\<rparr>]"

subsection \<open>The algorithm of \<^verbatim>\<open>textwrap.wrap\<close>\<close>

text \<open>
  \<open>wrap_words\<close> is the library's algorithm with its default options, for evaluating the
  view on concrete talks: tabs expanded, white space turned into spaces, the text cut
  into runs of spaces and of other characters, lines filled greedily, a run longer than
  the width broken. The library also breaks after the hyphen of a hyphenated word,
  and its \<^verbatim>\<open>strip\<close> takes Unicode white space beyond the six ASCII characters (such as
  \<^verbatim>\<open>U+00A0\<close>) for blank; both are left out, so \<open>wrap_words\<close> is the library's result on
  text without hyphens and without such characters.
\<close>

definition is_ws :: "nat \<Rightarrow> bool" where
  "is_ws c \<longleftrightarrow> c = 9 \<or> c = 10 \<or> c = 11 \<or> c = 12 \<or> c = 13 \<or> c = 32"

fun expandtabs :: "nat \<Rightarrow> ustr \<Rightarrow> ustr" where
  "expandtabs col [] = []"
| "expandtabs col (c # cs) =
     (if c = 9 then replicate (8 - col mod 8) SPACE @ expandtabs 0 cs
      else if c = 10 \<or> c = 13 then c # expandtabs 0 cs
      else c # expandtabs (col + 1) cs)"

definition munge_whitespace :: "ustr \<Rightarrow> ustr" where
  "munge_whitespace text = map (\<lambda>c. if is_ws c then SPACE else c) (expandtabs 0 text)"

fun split_chunks :: "ustr \<Rightarrow> ustr list" where
  "split_chunks [] = []"
| "split_chunks (c # cs) =
     (case split_chunks cs of
        [] \<Rightarrow> [[c]]
      | d # ds \<Rightarrow> if is_ws c = is_ws (hd d) then (c # d) # ds else [c] # d # ds)"

text \<open>\<^verbatim>\<open>chunk.strip() == ''\<close>.\<close>

definition blank :: "ustr \<Rightarrow> bool" where
  "blank c = list_all is_ws c"

text \<open>The inner loop of \<^verbatim>\<open>_wrap_chunks\<close>: the chunks that still fit on the line.\<close>

fun take_fitting :: "nat \<Rightarrow> nat \<Rightarrow> ustr list \<Rightarrow> ustr list \<times> ustr list" where
  "take_fitting width cur_len [] = ([], [])"
| "take_fitting width cur_len (c # cs) =
     (if cur_len + length c \<le> width
      then (case take_fitting width (cur_len + length c) cs of (line, rest) \<Rightarrow> (c # line, rest))
      else ([], c # cs))"

text \<open>\<^verbatim>\<open>_handle_long_word\<close> with \<^verbatim>\<open>break_long_words\<close> set.\<close>

definition handle_long_word :: "nat \<Rightarrow> ustr list \<Rightarrow> ustr list \<Rightarrow> ustr list \<times> ustr list" where
  "handle_long_word width cur_line chunks =
     (case chunks of
        [] \<Rightarrow> (cur_line, [])
      | c # cs \<Rightarrow>
          (let space_left = (if width < 1 then 1 else width - length (concat cur_line))
           in (cur_line @ [take space_left c], drop space_left c # cs)))"

definition fill_line :: "nat \<Rightarrow> bool \<Rightarrow> ustr list \<Rightarrow> ustr list \<times> ustr list" where
  "fill_line width started chunks =
     (let chunks1 = (case chunks of
                       [] \<Rightarrow> []
                     | c # cs \<Rightarrow> if blank c \<and> started then cs else c # cs);
          (line1, rest1) = take_fitting width 0 chunks1;
          (line2, rest2) = (if rest1 \<noteq> [] \<and> width < length (hd rest1)
                            then handle_long_word width line1 rest1
                            else (line1, rest1));
          line3 = (if line2 \<noteq> [] \<and> blank (last line2) then butlast line2 else line2)
      in (line3, rest2))"

definition chunks_size :: "ustr list \<Rightarrow> nat" where
  "chunks_size chunks = sum_list (map (\<lambda>c. Suc (length c)) chunks)"

lemma take_fitting_size:
  "take_fitting w n cs = (a, b) \<Longrightarrow> chunks_size a + chunks_size b = chunks_size cs"
  by (induction cs arbitrary: n a b) (auto simp: chunks_size_def split: if_splits prod.splits)

lemma handle_long_word_size:
  "handle_long_word w l cs = (a, b) \<Longrightarrow> chunks_size b \<le> chunks_size cs"
  by (auto simp: handle_long_word_def chunks_size_def Let_def split: list.splits)

lemma fill_line_size:
  assumes "chunks \<noteq> []" and "fill_line w s chunks = (l, r)"
  shows "chunks_size r < chunks_size chunks"
proof -
  obtain c cs where ch: "chunks = c # cs" using assms(1) by (cases chunks) auto
  show ?thesis
  proof (cases "blank c \<and> s")
    case True
    obtain a b where tf: "take_fitting w 0 cs = (a, b)" by force
    have "chunks_size b \<le> chunks_size cs" using take_fitting_size[OF tf] by simp
    moreover have "chunks_size r \<le> chunks_size b"
      using assms(2) True tf ch handle_long_word_size[of w a b]
      by (auto simp: fill_line_def Let_def split: if_splits prod.splits)
    ultimately show ?thesis using ch by (simp add: chunks_size_def)
  next
    case False
    show ?thesis
    proof (cases "length c \<le> w")
      case le: True
      obtain a b where tf: "take_fitting w (length c) cs = (a, b)" by force
      have "chunks_size b \<le> chunks_size cs" using take_fitting_size[OF tf] by simp
      moreover have "chunks_size r \<le> chunks_size b"
        using assms(2) False le tf ch handle_long_word_size[of w "c # a" b]
        by (auto simp: fill_line_def Let_def split: if_splits prod.splits)
      ultimately show ?thesis using ch by (simp add: chunks_size_def)
    next
      case gt: False
      then have "r = drop (if w < 1 then 1 else w) c # cs"
        using assms(2) False ch
        by (auto simp: fill_line_def Let_def handle_long_word_def split: if_splits prod.splits)
      moreover have "length (drop (if w < 1 then 1 else w) c) < length c"
        using gt by (cases c) auto
      ultimately show ?thesis using ch by (simp add: chunks_size_def)
    qed
  qed
qed

text \<open>The outer loop of \<^verbatim>\<open>_wrap_chunks\<close>; \<open>started\<close> says that \<^verbatim>\<open>lines\<close> is not empty.
  Every round consumes a chunk or a part of one.\<close>

function wrap_chunks :: "nat \<Rightarrow> bool \<Rightarrow> ustr list \<Rightarrow> ustr list" where
  "wrap_chunks width started chunks =
     (if chunks = [] then []
      else (case fill_line width started chunks of
              (line, rest) \<Rightarrow>
                if line \<noteq> [] then concat line # wrap_chunks width True rest
                else wrap_chunks width started rest))"
  by pat_completeness auto
termination
  by (relation "measure (\<lambda>(w, s, chunks). chunks_size chunks)")
     (auto intro: fill_line_size [OF _ sym])

declare wrap_chunks.simps [simp del]

definition wrap_words :: "ustr \<Rightarrow> nat \<Rightarrow> ustr list" where
  "wrap_words text width = wrap_chunks width False (split_chunks (munge_whitespace text))"

section \<open>Properties\<close>

subsection \<open>Lemmas on the card\<close>

lemma max_title_lines_pos: "1 \<le> max_title_lines h"
  by (simp add: max_title_lines_def)

lemma cut_titlelines_length:
  "int (length (cut_titlelines wrapped height text_width)) \<le> max_title_lines height"
  using max_title_lines_pos[of height]
  by (auto simp: cut_titlelines_def Let_def slice_to_def)

lemma cut_titlelines_spec:
  assumes "0 < text_width"
  shows "cut_titlelines wrapped height text_width
         = spec_title_lines wrapped height text_width"
proof -
  define m where "m = nat (max_title_lines height)"
  have m: "max_title_lines height = int m" "1 \<le> m"
    using max_title_lines_pos[of height] by (simp_all add: m_def)
  have ms: "nat (if height \<le> 5 then 1 else height - 4) = m"
    by (simp add: m_def max_title_lines_def)
  show ?thesis
  proof (cases "length wrapped > m")
    case False
    then show ?thesis
      by (simp add: cut_titlelines_def spec_title_lines_def m(1) ms)
  next
    case True
    have kept: "slice_to wrapped (int m) = take m wrapped" by (simp add: slice_to_def)
    have rem: "slice_from wrapped (int m) = drop m wrapped" by (simp add: slice_from_def)
    have len: "length (take m wrapped) = m" using True by simp
    have lastk: "last (take m wrapped) = wrapped ! (m - 1)"
    proof -
      have "take m wrapped \<noteq> []" using True m by auto
      then show ?thesis using len by (simp add: last_conv_nth)
    qed
    have upd: "(take m wrapped)[m - Suc 0 := x] = take (m - Suc 0) wrapped @ [x]" for x
    proof -
      have "take m wrapped = take (m - Suc 0) wrapped @ [wrapped ! (m - Suc 0)]"
        using True m take_Suc_conv_app_nth[of "m - Suc 0" wrapped] by simp
      moreover have "length (take (m - Suc 0) wrapped) = m - Suc 0" using True by simp
      ultimately show ?thesis by (metis list_update_length)
    qed
    have cut: "slice_to l (text_width - 1) = take (nat (text_width - 1)) l" for l :: ustr
      using assms by (simp add: slice_to_def)
    have "cut_titlelines wrapped height text_width
          = take (m - 1) wrapped
            @ [take (nat (text_width - 1)) (wrapped ! (m - 1) @ [SPACE] @ join [SPACE] (drop m wrapped))
               @ [ELLIPSIS]]"
      using True by (simp add: cut_titlelines_def Let_def m(1) kept rem len lastk upd cut)
    moreover have "spec_title_lines wrapped height text_width
          = take (m - 1) wrapped
            @ [take (nat (text_width - 1)) (wrapped ! (m - 1) @ [SPACE] @ join [SPACE] (drop m wrapped))
               @ [ELLIPSIS]]"
      using True by (simp add: spec_title_lines_def Let_def ms)
    ultimately show ?thesis by simp
  qed
qed

lemma join_plain:
  "ESC \<notin> set sep \<Longrightarrow> \<forall>x\<in>set xs. ESC \<notin> set x \<Longrightarrow> ESC \<notin> set (join sep xs)"
  by (induction sep xs rule: join.induct) auto

lemma cut_titlelines_fits:
  assumes "0 < tw"
    and ok: "\<forall>l\<in>set wrapped. length l \<le> nat tw \<and> ESC \<notin> set l"
  shows "\<forall>l\<in>set (cut_titlelines wrapped height tw). length l \<le> nat tw \<and> ESC \<notin> set l"
proof (cases "int (length wrapped) > max_title_lines height")
  case False
  then show ?thesis using ok by (simp add: cut_titlelines_def)
next
  case True
  define m where "m = max_title_lines height"
  have m: "1 \<le> m" unfolding m_def by (rule max_title_lines_pos)
  define kept where "kept = take (nat m) wrapped"
  define last_line where "last_line = last kept @ [SPACE] @ join [SPACE] (drop (nat m) wrapped)"
  define cut where "cut = take (nat (tw - 1)) last_line @ [ELLIPSIS]"
  have kept_ne: "kept \<noteq> []" using True m by (auto simp: kept_def m_def)
  have kept_sub: "set kept \<subseteq> set wrapped" by (auto simp: kept_def dest: in_set_takeD)
  have "last kept \<in> set wrapped" using kept_ne kept_sub last_in_set by blast
  then have "ESC \<notin> set (last kept)" using ok by blast
  moreover have "ESC \<notin> set (join [SPACE] (drop (nat m) wrapped))"
    using ok by (intro join_plain) (auto simp: SPACE_def ESC_def dest: in_set_dropD)
  ultimately have "ESC \<notin> set last_line" by (auto simp: last_line_def SPACE_def ESC_def)
  then have "ESC \<notin> set cut" by (auto simp: cut_def ELLIPSIS_def ESC_def dest: in_set_takeD)
  moreover have "length cut \<le> nat tw" using assms(1) by (simp add: cut_def)
  moreover have "cut_titlelines wrapped height tw = kept[length kept - 1 := cut]"
    using True assms(1) m
    by (simp add: cut_titlelines_def Let_def slice_to_def slice_from_def kept_def last_line_def
        cut_def m_def)
  moreover have "set (kept[length kept - 1 := cut]) \<subseteq> insert cut (set kept)"
    by (rule set_update_subset_insert)
  ultimately show ?thesis using ok kept_sub by auto
qed

lemma truncate_to_fits:
  assumes "1 \<le> cutoff" "ESC \<notin> set s"
  shows "length (truncate_to s cutoff) \<le> nat cutoff \<and> ESC \<notin> set (truncate_to s cutoff)"
  using assms
  by (auto simp: truncate_to_def slice_to_def ELLIPSIS_def ESC_def dest: in_set_takeD)

lemma truncate_to_Nil: "0 \<le> cutoff \<Longrightarrow> truncate_to [] cutoff = []"
  by (simp add: truncate_to_def)

lemma yield_all_Inr: "yield_all (map Inr ls) k = (ls @ fst k, snd k)"
  by (induction ls) auto

text \<open>The colour sequences vanish from the visible text; plain text stays.\<close>

lemma strip_plain_append:
  "ESC \<notin> set xs \<Longrightarrow> strip_sgr False (xs @ ys) = xs @ strip_sgr False ys"
  by (induction xs) auto

lemma strip_plain: "ESC \<notin> set xs \<Longrightarrow> strip_sgr False xs = xs"
  using strip_plain_append[of xs "[]"] by simp

lemma strip_sgr_codes:
  "strip_sgr False (sgr ''0'' @ ys) = strip_sgr False ys"
  "strip_sgr False (sgr ''1'' @ ys) = strip_sgr False ys"
  "strip_sgr False (sgr ''33'' @ ys) = strip_sgr False ys"
  "strip_sgr False (sgr ''38;5;246'' @ ys) = strip_sgr False ys"
  by (simp_all add: sgr_def str_def ESC_def)

lemma two_spaces_plain: "ESC \<notin> set (str ''  '')"
  by (simp add: str_def ESC_def)

lemma length_two_spaces: "length (str ''  '') = 2"
  by (simp add: str_def)

lemma length_times_space: "length (str_times [SPACE] n) = nat n"
  by (simp add: str_times_def length_concat sum_list_replicate)

lemma times_space_plain: "ESC \<notin> set (str_times [SPACE] n)"
  by (auto simp: str_times_def SPACE_def ESC_def)

lemma visible_empty_line: "length (visible (str_times [SPACE] n)) = nat n"
  by (simp add: visible_def strip_plain times_space_plain length_times_space)

lemma visible_title_line:
  assumes "0 \<le> tw" "length l \<le> nat tw" "ESC \<notin> set l"
  shows "\<exists>x. title_line tw l = Inr x \<and> length (visible x) = nat tw + 4"
proof -
  define padded where "padded = l @ replicate (nat tw - length l) SPACE"
  have p: "ESC \<notin> set padded" "length padded = nat tw"
    using assms by (auto simp: padded_def SPACE_def ESC_def)
  have "title_line tw l = Inr (str ''  '' @ sgr ''1'' @ padded @ sgr ''0'' @ str ''  '')"
    using assms by (simp add: title_line_def ljust_def padded_def)
  moreover have "visible (str ''  '' @ sgr ''1'' @ padded @ sgr ''0'' @ str ''  '')
                 = str ''  '' @ padded @ str ''  ''"
    by (simp add: visible_def strip_plain_append strip_plain strip_sgr_codes two_spaces_plain p)
  ultimately show ?thesis by (simp add: p length_two_spaces)
qed

lemma visible_speaker_line:
  assumes "0 \<le> tw" "length l \<le> nat tw" "ESC \<notin> set l"
  shows "\<exists>x. speaker_line tw l = Inr x \<and> length (visible x) = nat tw + 4"
proof -
  define padded where "padded = l @ replicate (nat tw - length l) SPACE"
  have p: "ESC \<notin> set padded" "length padded = nat tw"
    using assms by (auto simp: padded_def SPACE_def ESC_def)
  have "speaker_line tw l = Inr (str ''  '' @ sgr ''33'' @ padded @ sgr ''0'' @ str ''  '')"
    using assms by (simp add: speaker_line_def ljust_def padded_def)
  moreover have "visible (str ''  '' @ sgr ''33'' @ padded @ sgr ''0'' @ str ''  '')
                 = str ''  '' @ padded @ str ''  ''"
    by (simp add: visible_def strip_plain_append strip_plain strip_sgr_codes two_spaces_plain p)
  ultimately show ?thesis by (simp add: p length_two_spaces)
qed

lemma visible_locale_line:
  assumes "2 \<le> tw" "length loc = 2" "ESC \<notin> set loc"
  shows "length (visible (locale_line tw loc)) = nat tw + 4"
proof -
  have "visible (locale_line tw loc) = str_times [SPACE] (tw - 2) @ str ''  '' @ loc @ str ''  ''"
    by (simp add: locale_line_def visible_def strip_plain_append strip_plain strip_sgr_codes
        two_spaces_plain times_space_plain assms)
  then show ?thesis using assms by (simp add: length_times_space length_two_spaces)
qed

lemma visible_joined_line:
  assumes "4 \<le> tw" "length sp \<le> nat (tw - 4)" "ESC \<notin> set sp"
    and "length loc = 2" "ESC \<notin> set loc"
  shows "\<exists>x. joined_line tw sp loc = Inr x \<and> length (visible x) = nat tw + 4"
proof -
  define padded where "padded = sp @ replicate (nat (tw - 4) - length sp) SPACE"
  have p: "ESC \<notin> set padded" "length padded = nat (tw - 4)"
    using assms by (auto simp: padded_def SPACE_def ESC_def)
  have "joined_line tw sp loc
        = Inr (str ''  '' @ sgr ''33'' @ padded @ sgr ''0''
               @ str ''  '' @ sgr ''38;5;246'' @ loc @ sgr ''0'' @ str ''  '')"
    using assms by (simp add: joined_line_def ljust_def padded_def)
  moreover have "visible (str ''  '' @ sgr ''33'' @ padded @ sgr ''0''
               @ str ''  '' @ sgr ''38;5;246'' @ loc @ sgr ''0'' @ str ''  '')
                 = str ''  '' @ padded @ str ''  '' @ loc @ str ''  ''"
    by (simp add: visible_def strip_plain_append strip_plain strip_sgr_codes two_spaces_plain p assms)
  ultimately show ?thesis using assms by (simp add: p length_two_spaces)
qed

lemma title_lines_visible:
  assumes "0 \<le> tw" and "\<forall>l\<in>set ts. length l \<le> nat tw \<and> ESC \<notin> set l"
  shows "\<exists>ls. map (title_line tw) ts = map Inr ls \<and> (\<forall>x\<in>set ls. length (visible x) = nat tw + 4)"
  using assms(2)
proof (induction ts)
  case Nil
  then show ?case by simp
next
  case (Cons l ts)
  then obtain ls where ls: "map (title_line tw) ts = map Inr ls"
      "\<forall>x\<in>set ls. length (visible x) = nat tw + 4" by auto
  obtain x where x: "title_line tw l = Inr x" "length (visible x) = nat tw + 4"
    using visible_title_line[of tw l] assms(1) Cons.prems by auto
  have "map (title_line tw) (l # ts) = map Inr (x # ls)" using ls x by simp
  moreover have "\<forall>y\<in>set (x # ls). length (visible y) = nat tw + 4" using ls x by simp
  ultimately show ?case by blast
qed

text \<open>With four columns for the speakers' cell the last lines of a card are all
  formatted.\<close>

lemma speaker_items_Inr:
  assumes "4 \<le> tw"
  shows "\<exists>ls. speaker_items t tw hat e = map Inr ls"
proof (cases "submission t")
  case None
  then show ?thesis using assms by (simp add: speaker_items_def truncate_to_Nil)
next
  case (Some s)
  have j: "\<exists>x. joined_line tw sp loc = Inr x" for sp loc
    using assms by (simp add: joined_line_def ljust_def)
  have sp: "\<exists>x. speaker_line tw sp = Inr x" for sp
    using assms by (simp add: speaker_line_def ljust_def)
  define sj where "sj = truncate_to (display_speaker_names s) (tw - 4)"
  define sn where "sn = truncate_to (display_speaker_names s) tw"
  obtain xj where xj: "joined_line tw sj (content_locale s) = Inr xj" using j by blast
  obtain xs where xs: "speaker_line tw sn = Inr xs" using sp by blast
  show ?thesis
  proof (cases "hat \<le> 3")
    case True
    show ?thesis
    proof (cases "sj = []")
      case True
      then have "speaker_items t tw hat e = map Inr [locale_line tw (content_locale s)]"
        using Some \<open>hat \<le> 3\<close> by (simp add: speaker_items_def sj_def)
      then show ?thesis by blast
    next
      case False
      then have "speaker_items t tw hat e = map Inr [xj]"
        using Some \<open>hat \<le> 3\<close> xj by (simp add: speaker_items_def sj_def)
      then show ?thesis by blast
    qed
  next
    case False
    show ?thesis
    proof (cases "sn = []")
      case True
      then have "speaker_items t tw hat e = map Inr [locale_line tw (content_locale s)]"
        using Some False by (simp add: speaker_items_def sn_def)
      then show ?thesis by blast
    next
      case ne: False
      then have "speaker_items t tw hat e
                 = map Inr ([xs] @ (if hat > 4 then [e] else []) @ [locale_line tw (content_locale s)])"
        using Some False xs by (simp add: speaker_items_def sn_def)
      then show ?thesis by blast
    qed
  qed
qed

lemma speaker_items_length:
  "0 \<le> tw \<Longrightarrow>
   int (length (speaker_items t tw hat e)) \<le> (if hat \<le> 3 then 1 else if hat > 4 then 3 else 2)"
  by (auto simp: speaker_items_def Let_def truncate_to_Nil split: option.splits)

lemma map_title_line_Inr:
  assumes "0 \<le> tw"
  shows "\<exists>ls. map (title_line tw) ts = map Inr ls"
proof -
  have "map (title_line tw) ts = map Inr (map (\<lambda>l. str ''  '' @ sgr ''1'' @ (l @ replicate (nat tw - length l) SPACE) @ sgr ''0'' @ str ''  '') ts)"
    using assms by (simp add: title_line_def ljust_def)
  then show ?thesis by blast
qed

lemma card_items_Inr:
  assumes "8 \<le> col_width"
  shows "\<exists>ls. card_items wrap t col_width = map Inr ls"
proof -
  define tw where "tw = col_width - 4"
  define hat where "hat = card_height t - int (length (card_titlelines wrap t col_width))"
  have tw: "4 \<le> tw" "0 \<le> tw" using assms by (simp_all add: tw_def)
  have "\<exists>a. map (title_line tw) (card_titlelines wrap t col_width) = map Inr a"
    using tw(2) by (rule map_title_line_Inr)
  then obtain a where a: "map (title_line tw) (card_titlelines wrap t col_width) = map Inr a"
    by blast
  have "\<exists>b. speaker_items t tw hat (str_times [SPACE] col_width) = map Inr b"
    using tw(1) by (rule speaker_items_Inr)
  then obtain b where b: "speaker_items t tw hat (str_times [SPACE] col_width) = map Inr b"
    by blast
  have "card_items wrap t col_width
        = map Inr ((if card_height t > 4 then [str_times [SPACE] col_width] else []) @ a
                   @ (if hat > 2 then [str_times [SPACE] col_width] else []) @ b)"
    using a b by (simp add: card_items_def Let_def tw_def hat_def)
  then show ?thesis by blast
qed

lemma card_items_length:
  assumes "1 \<le> card_height t" "4 \<le> col_width"
  shows "int (length (card_items wrap t col_width)) \<le> card_height t + 1"
proof -
  define h where "h = card_height t"
  define T where "T = int (length (card_titlelines wrap t col_width))"
  define S where "S = int (length (speaker_items t (col_width - 4) (h - T) (str_times [SPACE] col_width)))"
  have T: "0 \<le> T" "T \<le> max_title_lines h"
    using cut_titlelines_length[of _ h] by (simp_all add: T_def card_titlelines_def Let_def h_def)
  have S: "S \<le> (if h - T \<le> 3 then 1 else if h - T > 4 then 3 else 2)"
    unfolding S_def using assms(2) by (intro speaker_items_length) simp
  have "int (length (card_items wrap t col_width))
        = (if h > 4 then 1 else 0) + T + (if h - T > 2 then 1 else 0) + S"
    by (simp add: card_items_def Let_def h_def T_def S_def)
  moreover have "(if h > 4 then 1 else 0) + T + (if h - T > 2 then 1 else 0) + S \<le> h + 1"
    using T S assms by (auto simp: max_title_lines_def h_def split: if_splits)
  ultimately show ?thesis by (simp add: h_def)
qed

lemma truncate_to_zero_empty: "truncate_to s 0 \<noteq> [] \<Longrightarrow> s \<noteq> []"
  by (auto simp: truncate_to_def)

lemma speaker_items_visible:
  assumes tw: "4 \<le> tw"
    and e: "length (visible e) = nat tw + 4"
    and sub: "\<forall>s. submission t = Some s \<longrightarrow>
               length (content_locale s) = 2 \<and> ESC \<notin> set (content_locale s)
               \<and> ESC \<notin> set (display_speaker_names s)"
  shows "\<exists>ls. speaker_items t tw hat e = map Inr ls
              \<and> (\<forall>x\<in>set ls. length (visible x) = nat tw + 4
                    \<or> (tw = 4 \<and> (\<exists>s. submission t = Some s \<and> display_speaker_names s \<noteq> []
                          \<and> joined_line tw (truncate_to (display_speaker_names s) (tw - 4))
                                (content_locale s) = Inr x)))"
proof (cases "submission t")
  case None
  then have "speaker_items t tw hat e = map Inr []"
    using tw by (simp add: speaker_items_def truncate_to_Nil)
  then show ?thesis by (intro exI[of _ "[]"]) simp
next
  case (Some s)
  define sj where "sj = truncate_to (display_speaker_names s) (tw - 4)"
  define sn where "sn = truncate_to (display_speaker_names s) tw"
  have loc: "length (content_locale s) = 2" "ESC \<notin> set (content_locale s)"
    and names: "ESC \<notin> set (display_speaker_names s)"
    using sub Some by auto
  have sn: "length sn \<le> nat tw" "ESC \<notin> set sn"
    using truncate_to_fits[of tw "display_speaker_names s"] tw names by (auto simp: sn_def)
  obtain xj where xj: "joined_line tw sj (content_locale s) = Inr xj"
    using tw by (auto simp: joined_line_def ljust_def)
  obtain xs where xs: "speaker_line tw sn = Inr xs" "length (visible xs) = nat tw + 4"
    using visible_speaker_line[of tw sn] tw sn by auto
  have xl: "length (visible (locale_line tw (content_locale s))) = nat tw + 4"
    using visible_locale_line[of tw "content_locale s"] tw loc by auto
  show ?thesis
  proof (cases "hat \<le> 3")
    case True
    show ?thesis
    proof (cases "sj = []")
      case True
      then have "speaker_items t tw hat e = map Inr [locale_line tw (content_locale s)]"
        using Some \<open>hat \<le> 3\<close> by (simp add: speaker_items_def sj_def)
      then show ?thesis using xl
        by (intro exI[of _ "[locale_line tw (content_locale s)]"]) simp
    next
      case False
      then have items: "speaker_items t tw hat e = map Inr [xj]"
        using Some \<open>hat \<le> 3\<close> xj by (simp add: speaker_items_def sj_def)
      have "length (visible xj) = nat tw + 4
            \<or> (tw = 4 \<and> (\<exists>s. submission t = Some s \<and> display_speaker_names s \<noteq> []
                  \<and> joined_line tw (truncate_to (display_speaker_names s) (tw - 4))
                        (content_locale s) = Inr xj))"
      proof (cases "tw = 4")
        case True
        then have "display_speaker_names s \<noteq> []"
          using False truncate_to_zero_empty[of "display_speaker_names s"] by (simp add: sj_def)
        then show ?thesis using True Some xj by (auto simp: sj_def)
      next
        case False
        then have "5 \<le> tw" using tw by simp
        then have "length sj \<le> nat (tw - 4)" "ESC \<notin> set sj"
          using truncate_to_fits[of "tw - 4" "display_speaker_names s"] names
          by (auto simp: sj_def)
        then show ?thesis
          using visible_joined_line[of tw sj "content_locale s"] tw loc xj by auto
      qed
      then show ?thesis using items by (intro exI[of _ "[xj]"]) simp
    qed
  next
    case False
    show ?thesis
    proof (cases "sn = []")
      case True
      then have "speaker_items t tw hat e = map Inr [locale_line tw (content_locale s)]"
        using Some False by (simp add: speaker_items_def sn_def)
      then show ?thesis using xl
        by (intro exI[of _ "[locale_line tw (content_locale s)]"]) simp
    next
      case ne: False
      then have "speaker_items t tw hat e
                 = map Inr ([xs] @ (if hat > 4 then [e] else []) @ [locale_line tw (content_locale s)])"
        using Some False xs by (simp add: speaker_items_def sn_def)
      moreover have "\<forall>x\<in>set ([xs] @ (if hat > 4 then [e] else []) @ [locale_line tw (content_locale s)]).
                       length (visible x) = nat tw + 4"
        using xs xl e by simp
      ultimately show ?thesis by blast
    qed
  qed
qed

lemma card_items_visible:
  assumes cw: "8 \<le> col_width"
    and wrapped: "\<forall>l\<in>set (wrap (title_text t) (nat (col_width - 4))).
                    length l \<le> nat (col_width - 4) \<and> ESC \<notin> set l"
    and sub: "\<forall>s. submission t = Some s \<longrightarrow>
               length (content_locale s) = 2 \<and> ESC \<notin> set (content_locale s)
               \<and> ESC \<notin> set (display_speaker_names s)"
  shows "\<exists>ls. card_items wrap t col_width = map Inr ls
              \<and> (\<forall>x\<in>set ls. length (visible x) = nat col_width
                    \<or> (col_width = 8 \<and> (\<exists>s. submission t = Some s \<and> display_speaker_names s \<noteq> []
                          \<and> joined_line (col_width - 4)
                                (truncate_to (display_speaker_names s) (col_width - 8))
                                (content_locale s) = Inr x)))"
proof -
  define tw where "tw = col_width - 4"
  define e where "e = str_times [SPACE] col_width"
  define hat where "hat = card_height t - int (length (card_titlelines wrap t col_width))"
  have tw: "4 \<le> tw" "nat tw + 4 = nat col_width" "tw - 4 = col_width - 8"
      "tw = 4 \<longleftrightarrow> col_width = 8"
    using cw by (simp_all add: tw_def)
  have e: "length (visible e) = nat tw + 4" by (simp add: e_def visible_empty_line tw)
  have "\<forall>l\<in>set (card_titlelines wrap t col_width). length l \<le> nat tw \<and> ESC \<notin> set l"
    unfolding card_titlelines_def Let_def tw_def[symmetric]
    using tw(1) wrapped[folded tw_def]
    by (intro cut_titlelines_fits) auto
  then have "\<exists>a. map (title_line tw) (card_titlelines wrap t col_width) = map Inr a
                 \<and> (\<forall>x\<in>set a. length (visible x) = nat tw + 4)"
    using tw(1) by (intro title_lines_visible) auto
  then obtain a where a: "map (title_line tw) (card_titlelines wrap t col_width) = map Inr a"
      "\<forall>x\<in>set a. length (visible x) = nat tw + 4" by blast
  have "\<exists>b. speaker_items t tw hat e = map Inr b
           \<and> (\<forall>x\<in>set b. length (visible x) = nat tw + 4
                 \<or> (tw = 4 \<and> (\<exists>s. submission t = Some s \<and> display_speaker_names s \<noteq> []
                       \<and> joined_line tw (truncate_to (display_speaker_names s) (tw - 4))
                             (content_locale s) = Inr x)))"
    using tw(1) e sub by (rule speaker_items_visible)
  then obtain b where b: "speaker_items t tw hat e = map Inr b"
      "\<forall>x\<in>set b. length (visible x) = nat col_width
           \<or> (col_width = 8 \<and> (\<exists>s. submission t = Some s \<and> display_speaker_names s \<noteq> []
                 \<and> joined_line (col_width - 4)
                       (truncate_to (display_speaker_names s) (col_width - 8))
                       (content_locale s) = Inr x))"
    unfolding tw(2,3,4) unfolding tw_def by blast
  have "card_items wrap t col_width
        = map Inr ((if card_height t > 4 then [e] else []) @ a
                   @ (if hat > 2 then [e] else []) @ b)"
    using a(1) b(1) by (simp add: card_items_def Let_def tw_def hat_def e_def)
  moreover have "\<forall>x\<in>set ((if card_height t > 4 then [e] else []) @ a
                   @ (if hat > 2 then [e] else []) @ b).
        length (visible x) = nat col_width
        \<or> (col_width = 8 \<and> (\<exists>s. submission t = Some s \<and> display_speaker_names s \<noteq> []
              \<and> joined_line (col_width - 4)
                    (truncate_to (display_speaker_names s) (col_width - 8))
                    (content_locale s) = Inr x))"
    using a(2) b(2) e tw(2) by auto
  ultimately show ?thesis by blast
qed

subsection \<open>Lemmas on the list and the table\<close>

lemma decimal_digits: "set (decimal n) \<subseteq> {48..57}"
proof (induction n rule: decimal.induct)
  case (1 n)
  show ?case
  proof (cases "n < 10")
    case True
    then show ?thesis by (subst decimal.simps) auto
  next
    case False
    then have "set (decimal (n div 10)) \<subseteq> {48..57}" using 1 by simp
    moreover have "48 + n mod 10 \<in> {48..57}" by auto
    ultimately show ?thesis using False by (subst decimal.simps) auto
  qed
qed

lemma zero_pad_digits: "set (zero_pad w n) \<subseteq> {48..57}"
  using decimal_digits[of n] by (auto simp: zero_pad_def)

lemma strftime_HM_no_newline: "NEWLINE \<notin> set (strftime_HM t)"
  using zero_pad_digits[of 2 "t div 60 mod 24"] zero_pad_digits[of 2 "t mod 60"]
  by (auto simp: strftime_HM_def NEWLINE_def str_def)

lemma get_table_for_date_empty:
  "all_talks d = [] \<Longrightarrow> get_table_for_date wrap con d col_width = Inr None"
  by (simp add: get_table_for_date_def)


lemma output_format_list:
  "output_format req = str ''list'' \<longleftrightarrow> GET req (str ''format'') = Some (str ''list'')"
  by (auto simp: output_format_def Let_def str_def split: option.splits)

lemma wrap_words_Opening: "wrap_words (str ''Opening'') 16 = [str ''Opening'']"
  by code_simp

lemma wrap_words_Opening_4: "wrap_words (str ''Opening'') 4 = [str ''Open'', str ''ing'']"
  by code_simp

subsection \<open>The card: width of its lines\<close>

text \<open>
  C1. The claim: for every talk and every column width of at least 8, every string that
  \<^verbatim>\<open>_card\<close> yields has exactly \<open>col_width\<close> characters. As stated it fails: the title,
  speaker and locale lines carry colour sequences, which \<^verbatim>\<open>len\<close> counts. What holds is
  the width on the terminal. Take a talk with a locale code of two characters, a title
  wrapped into lines no longer than the text width, and no escape character in the
  title, the speakers' names or the locale. For every column width of at least 8,
  \<^verbatim>\<open>_card\<close> raises nothing and every line it yields has exactly \<open>col_width\<close> visible
  characters; the one line left out is, at the width of exactly 8, the line that joins
  speakers' names that are not empty with the locale.
\<close>

theorem card_visible_width:
  assumes cw: "8 \<le> col_width"
    and wrapped: "\<forall>l\<in>set (wrap (title_text t) (nat (col_width - 4))).
                    length l \<le> nat (col_width - 4) \<and> ESC \<notin> set l"
    and sub: "\<forall>s. submission t = Some s \<longrightarrow>
               length (content_locale s) = 2 \<and> ESC \<notin> set (content_locale s)
               \<and> ESC \<notin> set (display_speaker_names s)"
  shows "snd (card_gen wrap t col_width) = None
         \<and> (\<forall>line\<in>set (fst (card_gen wrap t col_width)).
               int (length (visible line)) = col_width
               \<or> (col_width = 8
                   \<and> (\<exists>s. submission t = Some s \<and> display_speaker_names s \<noteq> []
                        \<and> joined_line (col_width - 4)
                              (truncate_to (display_speaker_names s) (col_width - 8))
                              (content_locale s) = Inr line)))"
proof -
  obtain ls where ls: "card_items wrap t col_width = map Inr ls"
      "\<forall>x\<in>set ls. length (visible x) = nat col_width
           \<or> (col_width = 8 \<and> (\<exists>s. submission t = Some s \<and> display_speaker_names s \<noteq> []
                 \<and> joined_line (col_width - 4)
                       (truncate_to (display_speaker_names s) (col_width - 8))
                       (content_locale s) = Inr x))"
    using card_items_visible[of col_width wrap t] assms by blast
  have "card_gen wrap t col_width
        = (ls @ replicate (nat (card_height t - int (length ls) + 1)) (str_times [SPACE] col_width), None)"
    using cw ls(1) by (simp add: card_gen_def Let_def yield_all_Inr)
  moreover have "\<forall>x\<in>set (replicate (nat (card_height t - int (length ls) + 1))
                             (str_times [SPACE] col_width)).
                   int (length (visible x)) = col_width"
    using cw by (auto simp: visible_empty_line)
  moreover have "\<forall>x\<in>set ls. int (length (visible x)) = col_width
           \<or> (col_width = 8 \<and> (\<exists>s. submission t = Some s \<and> display_speaker_names s \<noteq> []
                 \<and> joined_line (col_width - 4)
                       (truncate_to (display_speaker_names s) (col_width - 8))
                       (content_locale s) = Inr x))"
    using ls(2) cw by auto
  ultimately show ?thesis by auto
qed

theorem card_visible_width_witness:
  "snd (card_gen wrap_words (example_talk 1 ''Opening'' ''Main Hall'' 30) 8) = None
   \<and> list_all (\<lambda>line. int (length (visible line)) = 8)
        (fst (card_gen wrap_words (example_talk 1 ''Opening'' ''Main Hall'' 30) 8))
   \<and> snd (card_gen wrap_words (example_talk 1 ''Opening'' ''Main Hall'' 30) 20) = None
   \<and> list_all (\<lambda>line. int (length (visible line)) = 20)
        (fst (card_gen wrap_words (example_talk 1 ''Opening'' ''Main Hall'' 30) 20))"
proof -
  let ?t = "example_talk 1 ''Opening'' ''Main Hall'' 30"
  have s: "\<forall>s. submission ?t = Some s \<longrightarrow>
               length (content_locale s) = 2 \<and> ESC \<notin> set (content_locale s)
               \<and> ESC \<notin> set (display_speaker_names s)"
    by (simp add: example_talk_def example_sub_def str_def ESC_def)
  have w8: "\<forall>l\<in>set (wrap_words (title_text ?t) (nat (8 - 4))). length l \<le> nat (8 - 4) \<and> ESC \<notin> set l"
    by (simp add: title_text_def example_talk_def example_sub_def wrap_words_Opening_4)
       (simp add: str_def ESC_def)
  have w20: "\<forall>l\<in>set (wrap_words (title_text ?t) (nat (20 - 4))). length l \<le> nat (20 - 4) \<and> ESC \<notin> set l"
    by (simp add: title_text_def example_talk_def example_sub_def wrap_words_Opening)
       (simp add: str_def ESC_def)
  have not_joined: "list_all (\<lambda>line. joined_line (8 - 4) (truncate_to (str ''Ada Lovelace'') (8 - 8)) (str ''en'') \<noteq> Inr line)
        (fst (card_gen wrap_words ?t 8))"
    by code_simp
  have sub: "submission ?t = Some (example_sub ''Opening'')"
    by (simp add: example_talk_def)
  have names: "display_speaker_names (example_sub ''Opening'') = str ''Ada Lovelace''"
      "content_locale (example_sub ''Opening'') = str ''en''"
    by (simp_all add: example_sub_def)
  have at8: "snd (card_gen wrap_words ?t 8) = None
         \<and> list_all (\<lambda>line. int (length (visible line)) = 8) (fst (card_gen wrap_words ?t 8))"
    using card_visible_width[of 8 wrap_words ?t, OF _ w8 s] not_joined
    unfolding list_all_iff sub by (auto simp: names)
  have at20: "snd (card_gen wrap_words ?t 20) = None
         \<and> list_all (\<lambda>line. int (length (visible line)) = 20) (fst (card_gen wrap_words ?t 20))"
    using card_visible_width[of 20 wrap_words ?t, OF _ w20 s]
    by (simp add: list_all_iff)
  show ?thesis using at8 at20 by simp
qed

text \<open>
  At the default width of 20 the title line of a 30-minute talk has 28 characters. At
  width 8 the speakers' cell has no column left, the slice \<^verbatim>\<open>speaker_str[:-1]\<close> keeps all
  but the last character of the names, and the joined line of a 20-minute talk is wider
  than 8 on the terminal too. With the locale \<^verbatim>\<open>pt-br\<close> the locale line, which is not
  padded, has 23 visible characters at the width of 20.
\<close>

theorem card_raw_length_counterexample:
  "length (fst (card_gen wrap_words (example_talk 1 ''Opening'' ''Main Hall'' 30) 20) ! 1) \<noteq> 20
   \<and> length (visible (fst (card_gen wrap_words (example_talk 1 ''Opening'' ''Main Hall'' 20) 8) ! 1)) \<noteq> 8
   \<and> length (visible (fst (card_gen wrap_words
        (example_talk 1 ''Opening'' ''Main Hall'' 30
           \<lparr>submission := Some (example_sub ''Opening'' \<lparr>content_locale := str ''pt-br''\<rparr>)\<rparr>) 20) ! 4))
      \<noteq> 20"
  by code_simp

subsection \<open>The card: number of its lines\<close>

text \<open>
  C2. The claim: for a duration that is a positive multiple of 5, \<^verbatim>\<open>_card\<close> yields exactly
  \<open>duration / 5\<close> lines, also for a talk shorter than 10 minutes, and never raises.
  \<^verbatim>\<open>_card\<close> counts the lines it yields and fills up to \<open>height + 1\<close>, but a 5-minute talk
  with a submission has yielded its title line and its speaker line by then: two lines
  where \<open>duration / 5\<close> is 1.
\<close>

theorem card_five_minute_talk:
  "duration (example_talk 1 ''Opening'' ''Main Hall'' 5) div 5 = 1
   \<and> snd (card_gen wrap_words (example_talk 1 ''Opening'' ''Main Hall'' 5) 20) = None
   \<and> length (fst (card_gen wrap_words (example_talk 1 ''Opening'' ''Main Hall'' 5) 20)) = 2"
  by code_simp

text \<open>From 10 minutes on, and with at least 8 columns, the count is \<open>duration div 5\<close>.\<close>

lemma card_line_count:
  assumes "8 \<le> col_width" "10 \<le> duration t"
  shows "snd (card_gen wrap t col_width) = None
         \<and> int (length (fst (card_gen wrap t col_width))) = duration t div 5"
proof -
  obtain ls where ls: "card_items wrap t col_width = map Inr ls"
    using card_items_Inr[OF assms(1)] by blast
  have h: "1 \<le> card_height t" using assms(2) by (simp add: card_height_def)
  have len: "int (length ls) \<le> card_height t + 1"
    using card_items_length[OF h, of col_width wrap] assms(1) ls by simp
  have "card_gen wrap t col_width
        = (ls @ replicate (nat (card_height t - int (length ls) + 1)) (str_times [SPACE] col_width), None)"
    using assms(1) ls by (simp add: card_gen_def Let_def yield_all_Inr)
  then show ?thesis using len by (simp add: card_height_def)
qed

subsection \<open>The list: order of the talks\<close>

text \<open>
  C3. The claim: the list renderer sorts the talks of a day by start and then by title,
  so that of two talks at the same instant "Alpha" comes before "Zebra" whatever their
  order in the rooms. \<^verbatim>\<open>get_schedule_data_list\<close> sorts so; \<^verbatim>\<open>_get_text_list\<close>, which
  writes the text, sorts by start alone and keeps the order of the rooms: with "Zebra"
  in the first hall and "Alpha" in the second, both at 09:00, "Zebra" is written first.
\<close>

theorem text_list_keeps_input_order_on_ties:
  "start (example_talk 1 ''Zebra'' ''Hall A'' 30) = start (example_talk 2 ''Alpha'' ''Hall B'' 30)
   \<and> get_text_list [tie_day]
     = date_header tie_day @ list_entry (example_talk 1 ''Zebra'' ''Hall A'' 30)
       @ list_entry (example_talk 2 ''Alpha'' ''Hall B'' 30)"
  by (simp add: tie_day_def example_day_def all_talks_def example_talk_def)

text \<open>\<^verbatim>\<open>get_schedule_data_list\<close> on the same day, and on any day.\<close>

lemma schedule_data_list_tie:
  "map dt_talks (get_schedule_data_list [tie_day])
   = [[example_talk 2 ''Alpha'' ''Hall B'' 30, example_talk 1 ''Zebra'' ''Hall A'' 30]]"
  by (simp add: get_schedule_data_list_def tie_day_def example_day_def all_talks_def
      example_talk_def list_sort_key_def example_sub_def str_def)

lemma schedule_data_list_sorted:
  "x \<in> set (get_schedule_data_list data) \<Longrightarrow> sorted (map list_sort_key (dt_talks x))"
  by (auto simp: get_schedule_data_list_def)

subsection \<open>A day without talks\<close>

text \<open>
  C4. The claim: a day without talks is rendered as the line "No talks on this day.",
  never as an empty string or an exception. In the table that holds: the day gives its
  date line and that line, and raises nothing. In the list, \<^verbatim>\<open>if talk_list:\<close> skips the
  day: it adds nothing to the text, not even its date.
\<close>

theorem empty_date_rendering:
  assumes "all_talks d = []"
  shows "get_text_table wrap con (d # ds) col_width
           = (case get_text_table wrap con ds col_width of
                Inl e \<Rightarrow> Inl e
              | Inr rest \<Rightarrow> Inr (date_header d @ str ''No talks on this day.'' @ [NEWLINE] @ rest))
         \<and> get_text_list (d # ds) = get_text_list ds"
  using assms by (simp add: get_table_for_date_empty no_talks_def split: sum.splits)

theorem empty_date_rendering_witness:
  "get_text_table wrap_words ascii_console [example_day [\<lparr>name = str ''Hall A'', talks = Some []\<rparr>]] 20
     = Inr (date_header (example_day [\<lparr>name = str ''Hall A'', talks = Some []\<rparr>])
            @ str ''No talks on this day.'' @ [NEWLINE])
   \<and> get_text_list [example_day [\<lparr>name = str ''Hall A'', talks = Some []\<rparr>]] = []"
  using empty_date_rendering[of "example_day [\<lparr>name = str ''Hall A'', talks = Some []\<rparr>]" wrap_words ascii_console "[]" 20]
  by (simp add: example_day_def all_talks_def)

theorem empty_date_list_counterexample:
  "get_text_list [example_day []] = []"
  by (simp add: example_day_def all_talks_def)

subsection \<open>The boundary between two rooms\<close>

text \<open>
  C5. For two neighbouring rooms at one instant: when the left room has a running talk
  and the right room a talk that starts or ends, \<^verbatim>\<open>_get_line_parts\<close> gives the junction
  \<^verbatim>\<open>U+251C\<close>; otherwise, when the right room has a running talk and the left room a talk
  that starts or ends, it gives \<^verbatim>\<open>U+2524\<close>. Neither depends on \<^verbatim>\<open>get_separator\<close>.
\<close>

theorem get_line_parts_overrides:
  "(truthy run_left \<and> (truthy start_right \<or> truthy end_right)
      \<longrightarrow> get_line_parts con start_left start_right end_left end_right run_left run_right fill_char = [[LEFT_T]])
   \<and> (\<not> (truthy run_left \<and> (truthy start_right \<or> truthy end_right)) \<and> truthy run_right \<and> (truthy start_left \<or> truthy end_left)
      \<longrightarrow> get_line_parts con start_left start_right end_left end_right run_left run_right fill_char = [[RIGHT_T]])"
  by (auto simp: get_line_parts_def)

theorem get_line_parts_overrides_witness:
  "get_line_parts ascii_console None (Some example_break) None None (Some example_break) None [SPACE]
     = [[LEFT_T]]
   \<and> get_line_parts ascii_console None None (Some example_break) None None (Some example_break) [SPACE]
     = [[RIGHT_T]]"
  using get_line_parts_overrides[where con = ascii_console and fill_char = "[SPACE]"
        and start_left = None and end_left = None and run_left = "Some example_break"
        and start_right = "Some example_break" and end_right = None and run_right = None]
    get_line_parts_overrides[where con = ascii_console and fill_char = "[SPACE]"
        and start_left = None and end_left = "Some example_break" and run_left = None
        and start_right = None and end_right = None and run_right = "Some example_break"]
  by (simp add: truthy_def)

subsection \<open>The title lines of a card\<close>

text \<open>
  C6. The card keeps at most \<open>max_title_lines\<close> lines of the wrapped title, 1 for a height
  of at most 5 and the height minus 4 otherwise; a longer title keeps the first
  \<open>max_title_lines\<close> lines, with the remaining words added to the last of them, that line
  cut to \<open>text_width - 1\<close> characters and the ellipsis appended. The title is wrapped when
  the column is wider than 4; \<^verbatim>\<open>textwrap.wrap\<close> raises otherwise.
\<close>

theorem card_title_truncation:
  assumes "4 < col_width"
  shows "card_titlelines wrap t col_width
           = spec_title_lines (wrap (title_text t) (nat (col_width - 4))) (card_height t) (col_width - 4)
         \<and> int (length (card_titlelines wrap t col_width)) \<le> max_title_lines (card_height t)"
proof
  show "card_titlelines wrap t col_width
        = spec_title_lines (wrap (title_text t) (nat (col_width - 4))) (card_height t) (col_width - 4)"
    using assms cut_titlelines_spec[of "col_width - 4"] by (simp add: card_titlelines_def Let_def)
  show "int (length (card_titlelines wrap t col_width)) \<le> max_title_lines (card_height t)"
    unfolding card_titlelines_def Let_def by (rule cut_titlelines_length)
qed

theorem card_title_truncation_witness:
  "card_titlelines wrap_words (example_talk 3 ''Formal verification for everyone'' ''Hall A'' 30) 20
     = [str ''Formal verifica'' @ [ELLIPSIS]]
   \<and> max_title_lines (card_height (example_talk 3 ''Formal verification for everyone'' ''Hall A'' 30)) = 1"
proof -
  have "spec_title_lines (wrap_words (title_text (example_talk 3 ''Formal verification for everyone'' ''Hall A'' 30)) (nat (20 - 4)))
          (card_height (example_talk 3 ''Formal verification for everyone'' ''Hall A'' 30)) (20 - 4)
        = [str ''Formal verifica'' @ [ELLIPSIS]]"
    by code_simp
  moreover have "max_title_lines (card_height (example_talk 3 ''Formal verification for everyone'' ''Hall A'' 30)) = 1"
    by code_simp
  ultimately show ?thesis
    using card_title_truncation[of 20 wrap_words "example_talk 3 ''Formal verification for everyone'' ''Hall A'' 30"]
    by simp
qed

subsection \<open>The header of the table\<close>




text \<open>The header is the first line of the table of a day.\<close>

lemma get_table_for_date_header:
  assumes "get_table_for_date wrap con d col_width = Inr (Some text)"
  shows "\<exists>tbr header lines.
           talks_by_room_from [] (rooms d) = Inr tbr
         \<and> header_row (map fst tbr) col_width = Inr header
         \<and> text = join [NEWLINE] (header # lines)"
  using assms
  by (auto simp: get_table_for_date_def Let_def split: if_splits sum.splits)

subsection \<open>The format of the answer\<close>

text \<open>
  C8. With the query parameter \<^verbatim>\<open>format\<close> equal to \<^verbatim>\<open>list\<close>, \<^verbatim>\<open>get_text\<close> answers with the
  list; with any other value, or without the parameter, it answers with the table at
  the width of 20.
\<close>

theorem get_text_format:
  "(GET req (str ''format'') = Some (str ''list'')
      \<longrightarrow> get_text wrap con response_start data req
          = Inr \<lparr>content = response_start @ get_text_list data,
                 content_type = str ''text/plain; charset=utf-8''\<rparr>)
   \<and> (GET req (str ''format'') \<noteq> Some (str ''list'')
      \<longrightarrow> get_text wrap con response_start data req
          = (case get_text_table wrap con data 20 of
               Inl e \<Rightarrow> Inl e
             | Inr result \<Rightarrow> Inr \<lparr>content = response_start @ result,
                                  content_type = str ''text/plain; charset=utf-8''\<rparr>))"
  by (simp add: get_text_def output_format_list)

theorem get_text_format_witness:
  "get_text wrap_words ascii_console (str ''Demo'') [tie_day] \<lparr>GET = [str ''format'' \<mapsto> str ''list'']\<rparr>
     = Inr \<lparr>content = str ''Demo'' @ get_text_list [tie_day],
            content_type = str ''text/plain; charset=utf-8''\<rparr>
   \<and> get_text wrap_words ascii_console (str ''Demo'') [tie_day] \<lparr>GET = [str ''format'' \<mapsto> str ''grid'']\<rparr>
     = (case get_text_table wrap_words ascii_console [tie_day] 20 of
          Inl e \<Rightarrow> Inl e
        | Inr result \<Rightarrow> Inr \<lparr>content = str ''Demo'' @ result,
                             content_type = str ''text/plain; charset=utf-8''\<rparr>)
   \<and> get_text wrap_words ascii_console (str ''Demo'') [tie_day] \<lparr>GET = Map.empty\<rparr>
     = (case get_text_table wrap_words ascii_console [tie_day] 20 of
          Inl e \<Rightarrow> Inl e
        | Inr result \<Rightarrow> Inr \<lparr>content = str ''Demo'' @ result,
                             content_type = str ''text/plain; charset=utf-8''\<rparr>)"
  using get_text_format[of "\<lparr>GET = [str ''format'' \<mapsto> str ''list'']\<rparr>" wrap_words ascii_console "str ''Demo''" "[tie_day]"]
    get_text_format[of "\<lparr>GET = [str ''format'' \<mapsto> str ''grid'']\<rparr>" wrap_words ascii_console "str ''Demo''" "[tie_day]"]
    get_text_format[of "\<lparr>GET = Map.empty\<rparr>" wrap_words ascii_console "str ''Demo''" "[tie_day]"]
  by (simp add: str_def)

subsection \<open>Truncation twice\<close>

text \<open>
  C9. The claim: for every string and every limit, cutting twice with the same limit
  gives what cutting once gives. That holds for every limit from 0 on. A negative limit,
  which is the cutoff of the speakers' cell below 8 columns, makes \<^verbatim>\<open>s[:limit-1]\<close> drop
  characters from the end each time: "abc" becomes "a" with the ellipsis and then the
  ellipsis alone.
\<close>

theorem truncate_idempotent:
  assumes "0 \<le> limit"
  shows "truncate_to (truncate_to s limit) limit = truncate_to s limit"
proof (cases "int (length s) > limit")
  case False
  then show ?thesis by (simp add: truncate_to_def)
next
  case True
  show ?thesis
  proof (cases "limit = 0")
    case True
    then have "s \<noteq> []" using \<open>int (length s) > limit\<close> by auto
    then show ?thesis using True
      by (simp add: truncate_to_def slice_to_def)
  next
    case False
    then have pos: "0 \<le> limit - 1" using assms by simp
    then have "slice_to s (limit - 1) = take (nat (limit - 1)) s" by (simp add: slice_to_def)
    moreover have "nat (limit - 1) < length s" using True pos by linarith
    ultimately have "length (slice_to s (limit - 1) @ [ELLIPSIS]) = Suc (nat (limit - 1))"
      by simp
    moreover have "int (Suc (nat (limit - 1))) = limit" using pos by simp
    ultimately have "\<not> int (length (slice_to s (limit - 1) @ [ELLIPSIS])) > limit" by simp
    then show ?thesis using True by (simp add: truncate_to_def)
  qed
qed

theorem truncate_idempotent_witness:
  "truncate_to (truncate_to (str ''Ada Lovelace'') 5) 5 = truncate_to (str ''Ada Lovelace'') 5
   \<and> truncate_to (str ''Ada Lovelace'') 5 = str ''Ada '' @ [ELLIPSIS]"
  using truncate_idempotent[of 5 "str ''Ada Lovelace''"]
  by (simp add: truncate_to_def slice_to_def str_def)

theorem truncate_negative_limit:
  "truncate_to (truncate_to (str ''abc'') (- 1)) (- 1) \<noteq> truncate_to (str ''abc'') (- 1)"
  by (simp add: truncate_to_def slice_to_def str_def)

subsection \<open>The ends of the entries of the list\<close>

text \<open>
  C10. In the list, the entry of a talk with a submission ends with a newline. The entry
  of a break gets none: when its description and the name of its room hold no
  newline, the whole entry holds none. The entries of a day are written one after the
  other with nothing between them, so the entry after a break goes on on the same line.
\<close>

theorem list_entry_newline:
  "(submission t \<noteq> None \<longrightarrow> last (list_entry t) = NEWLINE)
   \<and> (submission b = None \<and> NEWLINE \<notin> set (description b) \<and> NEWLINE \<notin> set (room_name b)
        \<longrightarrow> NEWLINE \<notin> set (list_entry b))
   \<and> (sort_key start (all_talks d) = earlier @ b # following # later
        \<longrightarrow> (\<exists>pre post. get_text_list [d]
                         = pre @ list_entry b @ list_entry following @ post))"
proof (intro conjI impI)
  assume "submission t \<noteq> None"
  then show "last (list_entry t) = NEWLINE"
    by (auto simp: list_entry_def split: option.splits)
next
  assume "submission b = None \<and> NEWLINE \<notin> set (description b) \<and> NEWLINE \<notin> set (room_name b)"
  then show "NEWLINE \<notin> set (list_entry b)"
    using strftime_HM_no_newline[of "start b"]
    by (auto simp: list_entry_def sgr_def str_def NEWLINE_def ESC_def)
next
  assume "sort_key start (all_talks d) = earlier @ b # following # later"
  then have "get_text_list [d]
             = (date_header d @ concat (map list_entry earlier))
               @ list_entry b @ list_entry following @ concat (map list_entry later)"
    by simp
  then show "\<exists>pre post. get_text_list [d] = pre @ list_entry b @ list_entry following @ post"
    by blast
qed

theorem list_entry_newline_witness:
  "last (list_entry (example_talk 1 ''Zebra'' ''Hall A'' 30)) = NEWLINE
   \<and> NEWLINE \<notin> set (list_entry example_break)
   \<and> (\<exists>pre post. get_text_list [coffee_day]
          = pre @ list_entry example_break
            @ list_entry (example_talk 1 ''Zebra'' ''Hall A'' 30 \<lparr>start := 615\<rparr>) @ post)"
proof -
  have sorted_day: "sort_key start (all_talks coffee_day)
        = [] @ example_break # (example_talk 1 ''Zebra'' ''Hall A'' 30 \<lparr>start := 615\<rparr>) # []"
    by (simp add: coffee_day_def example_day_def all_talks_def example_break_def example_talk_def)
  have fields: "submission example_break = None \<and> NEWLINE \<notin> set (description example_break)
        \<and> NEWLINE \<notin> set (room_name example_break)"
    by (simp add: example_break_def str_def NEWLINE_def)
  have sub: "submission (example_talk 1 ''Zebra'' ''Hall A'' 30) \<noteq> None"
    by (simp add: example_talk_def)
  show ?thesis
    using list_entry_newline[where t = "example_talk 1 ''Zebra'' ''Hall A'' 30"
        and b = example_break and d = coffee_day and earlier = "[]"
        and following = "example_talk 1 ''Zebra'' ''Hall A'' 30 \<lparr>start := 615\<rparr>"
        and later = "[]"]
      sorted_day fields sub
    by blast
qed

text \<open>The coffee break of the example and the talk after it.\<close>

lemma text_list_break_same_line:
  "get_text_list [coffee_day]
   = [NEWLINE] @ sgr ''33'' @ str ''2026-03-07'' @ sgr ''0'' @ [NEWLINE]
     @ str ''* '' @ sgr ''33'' @ str ''10:00'' @ sgr ''0'' @ str '' Coffee in Foyer''
     @ str ''* '' @ sgr ''33'' @ str ''10:15'' @ sgr ''0''
     @ str '' Zebra, Ada Lovelace (en); in Hall A'' @ [NEWLINE]"
  by code_simp

end
